theory Spec2Isabelle
  imports Main "HOL-Library.Word"
begin

section \<open>Machine integers\<close>

text \<open>
  The histogram of \<^verbatim>\<open>histogram_aggregator.hpp\<close> works on three integer types:
  \<^verbatim>\<open>int\<close> (ticks and measurements, 32 bits, compared as signed values),
  \<^verbatim>\<open>size_t\<close> (the frequency counter, 64 bits, unsigned, \<^verbatim>\<open>++\<close> wraps) and
  \<^verbatim>\<open>int64_t\<close> (the time difference computed by the action time updater).
\<close>

type_synonym cint = "32 word"
type_synonym size_t = "64 word"
type_synonym int64_t = "64 word"

text \<open>\<^verbatim>\<open>std::numeric_limits<int>::max()\<close>\<close>

definition INT_MAX :: cint where
  "INT_MAX = 2147483647"

text \<open>
  The implicit conversion of an \<^verbatim>\<open>int64_t\<close> argument to an \<^verbatim>\<open>int\<close> parameter
  keeps the low 32 bits.
\<close>

definition int64_to_int :: "int64_t \<Rightarrow> cint" where
  "int64_to_int d = ucast d"

text \<open>
  Indexing a vector past its end is undefined behaviour in C++, and \<^verbatim>\<open>AddMember\<close> on a
  value that is not an object fails an assertion of the JSON library; the model makes each
  an error value.
\<close>

datatype error = Out_of_range | Not_an_object

section \<open>\<^verbatim>\<open>std::upper_bound\<close>\<close>

text \<open>
  The standard library's binary search, as libstdc++ and libc++ write it:
  \<^verbatim>\<open>
  len = last - first;
  while (len > 0) {
    half = len >> 1;  middle = first + half;
    if (val < *middle) len = half;
    else { first = middle + 1; len = len - half - 1; }
  }
  return first;
  \<close>
  On \<^verbatim>\<open>int\<close> the comparison is the signed one. The search is defined on every
  sequence, sorted or not; \<open>middle\<close> always lies inside the range searched.
\<close>

function upper_bound_loop :: "cint list \<Rightarrow> cint \<Rightarrow> nat \<Rightarrow> nat \<Rightarrow> nat" where
  "upper_bound_loop xs val first len =
     (if 0 < len then
        (let half = len div 2; middle = first + half
         in if val <s xs ! middle then upper_bound_loop xs val first half
            else upper_bound_loop xs val (middle + 1) (len - half - 1))
      else first)"
  by pat_completeness auto
termination
  by (relation "measure (\<lambda>(xs, val, first, len). len)") auto

declare upper_bound_loop.simps [simp del]

definition upper_bound :: "cint list \<Rightarrow> cint \<Rightarrow> nat" where
  "upper_bound xs val = upper_bound_loop xs val 0 (length xs)"

section \<open>\<^verbatim>\<open>bucket_t\<close>\<close>

record bucket_t =
  frequency :: size_t

text \<open>\<^verbatim>\<open>bucket_t()\<close>: value initialisation of a struct without constructor zeroes it.\<close>

definition bucket_t_init :: bucket_t where
  "bucket_t_init = \<lparr>frequency = 0\<rparr>"

definition bucket_update :: "bucket_t \<Rightarrow> bucket_t" where
  "bucket_update b = b\<lparr>frequency := frequency b + 1\<rparr>"

definition bucket_get :: "bucket_t \<Rightarrow> size_t" where
  "bucket_get b = frequency b"

section \<open>\<^verbatim>\<open>histogram_t<Bucket>\<close>\<close>

record 'b histogram_t =
  ticks :: "cint list"
  buckets :: "'b list"

text \<open>
  The constructor: \<open>child\<close> is \<^verbatim>\<open>Bucket(dimensionsTicks...)\<close>, the child built from
  the ticks of the inner dimensions, copied \<^verbatim>\<open>dimensionTicks.size() + 1\<close> times; then
  the sentinel is pushed. Nothing is validated.
\<close>

definition histogram_t :: "cint list \<Rightarrow> 'b \<Rightarrow> 'b histogram_t" where
  "histogram_t dimensionTicks child =
     \<lparr>ticks = dimensionTicks @ [INT_MAX],
      buckets = replicate (length dimensionTicks + 1) child\<rparr>"

text \<open>
  \<^verbatim>\<open>update(measurement, measurements...)\<close>: \<open>child_update\<close> is the child's own
  \<^verbatim>\<open>update(measurements...)\<close>. The source indexes \<^verbatim>\<open>buckets[position]\<close> unchecked.
\<close>

definition update ::
  "('b \<Rightarrow> 'ms \<Rightarrow> error + 'b) \<Rightarrow> 'b histogram_t \<Rightarrow> cint \<Rightarrow> 'ms \<Rightarrow> error + 'b histogram_t" where
  "update child_update h measurement measurements =
     (let position = upper_bound (ticks h) measurement
      in if position < length (buckets h) then
           (case child_update (buckets h ! position) measurements of
              Inl e \<Rightarrow> Inl e
            | Inr c \<Rightarrow> Inr (h\<lparr>buckets := (buckets h)[position := c]\<rparr>))
         else Inl Out_of_range)"

text \<open>
  \<^verbatim>\<open>get(measurement, measurements...)\<close> indexes directly; the \<^verbatim>\<open>int\<close> index is
  converted to \<^verbatim>\<open>size_t\<close>, so a negative one is far out of range.
\<close>

definition get ::
  "('b \<Rightarrow> 'ms \<Rightarrow> error + size_t) \<Rightarrow> 'b histogram_t \<Rightarrow> cint \<Rightarrow> 'ms \<Rightarrow> error + size_t" where
  "get child_get h measurement measurements =
     (if 0 \<le> sint measurement \<and> nat (sint measurement) < length (buckets h)
      then child_get (buckets h ! nat (sint measurement)) measurements
      else Inl Out_of_range)"

subsection \<open>The two instances the source names\<close>

type_synonym histogram1D_t = "bucket_t histogram_t"
type_synonym histogram2D_t = "bucket_t histogram_t histogram_t"

definition histogram1D_t :: "cint list \<Rightarrow> histogram1D_t" where
  "histogram1D_t dimensionTicks = histogram_t dimensionTicks bucket_t_init"

definition histogram2D_t :: "cint list \<Rightarrow> cint list \<Rightarrow> histogram2D_t" where
  "histogram2D_t dimensionTicks innerTicks =
     histogram_t dimensionTicks (histogram1D_t innerTicks)"

definition update1D :: "histogram1D_t \<Rightarrow> cint \<Rightarrow> error + histogram1D_t" where
  "update1D h measurement =
     update (\<lambda>b (u :: unit). Inr (bucket_update b)) h measurement ()"

definition update2D :: "histogram2D_t \<Rightarrow> cint \<Rightarrow> cint \<Rightarrow> error + histogram2D_t" where
  "update2D h measurement inner = update update1D h measurement inner"

definition get1D :: "histogram1D_t \<Rightarrow> cint \<Rightarrow> error + size_t" where
  "get1D h i = get (\<lambda>b (u :: unit). Inr (bucket_get b)) h i ()"

definition get2D :: "histogram2D_t \<Rightarrow> cint \<Rightarrow> cint \<Rightarrow> error + size_t" where
  "get2D h i j = get get1D h i j"

section \<open>Serialisation\<close>

text \<open>
  A \<^verbatim>\<open>rapidjson::Value\<close>, as far as the source builds one: unsigned numbers, strings,
  arrays, and objects whose members keep the order of their \<^verbatim>\<open>AddMember\<close> calls
  (a key added twice is there twice).
\<close>

datatype json = JUint size_t | JString string | JArray "json list" | JObject "(string \<times> json) list"

fun AddMember :: "json \<Rightarrow> string \<Rightarrow> json \<Rightarrow> error + json" where
  "AddMember (JObject ms) name v = Inr (JObject (ms @ [(name, v)]))"
| "AddMember j name v = Inl Not_an_object"

text \<open>\<^verbatim>\<open>std::to_string(long long)\<close>: decimal digits, a minus sign when negative.\<close>

definition digit_char :: "nat \<Rightarrow> char" where
  "digit_char d = ''0123456789'' ! d"

function nat_digits :: "nat \<Rightarrow> string" where
  "nat_digits n = (if n < 10 then [digit_char n] else nat_digits (n div 10) @ [digit_char (n mod 10)])"
  by pat_completeness auto
termination
  by (relation "measure (\<lambda>n. n)") auto

declare nat_digits.simps [simp del]

definition to_string :: "int \<Rightarrow> string" where
  "to_string i = (if i < 0 then CHR ''-'' # nat_digits (nat (- i)) else nat_digits (nat i))"

text \<open>\<^verbatim>\<open>"<" + std::to_string(static_cast<long long>(ticks[i]))\<close>\<close>

definition label :: "cint \<Rightarrow> string" where
  "label t = ''<'' @ to_string (sint t)"

definition bucket_to_json :: "bucket_t \<Rightarrow> json \<Rightarrow> error + json" where
  "bucket_to_json b v = AddMember v ''frequency'' (JUint (frequency b))"

text \<open>
  The loop of \<^verbatim>\<open>histogram_t::to_json\<close> over \<^verbatim>\<open>i = 0 .. ticks.size() - 1\<close>.
  \<open>bucket_value\<close> is the branch that \<^verbatim>\<open>std::is_same<Bucket, bucket_t>\<close> selects:
  the number \<^verbatim>\<open>buckets[i].get()\<close> for a leaf, the child's own document otherwise.
  \<^verbatim>\<open>buckets[i]\<close> is read unchecked.
\<close>

fun to_json_loop ::
  "('b \<Rightarrow> error + json) \<Rightarrow> 'b histogram_t \<Rightarrow> nat list \<Rightarrow> json \<Rightarrow> error + json" where
  "to_json_loop bucket_value h [] v = Inr v"
| "to_json_loop bucket_value h (i # is) v =
     (if i < length (buckets h) then
        (case bucket_value (buckets h ! i) of
           Inl e \<Rightarrow> Inl e
         | Inr bv \<Rightarrow>
             (case AddMember v (label (ticks h ! i)) bv of
                Inl e \<Rightarrow> Inl e
              | Inr v' \<Rightarrow> to_json_loop bucket_value h is v'))
      else Inl Out_of_range)"

definition to_json ::
  "('b \<Rightarrow> error + json) \<Rightarrow> 'b histogram_t \<Rightarrow> json \<Rightarrow> error + json" where
  "to_json bucket_value h v = to_json_loop bucket_value h [0..<length (ticks h)] v"

definition to_json1D :: "histogram1D_t \<Rightarrow> json \<Rightarrow> error + json" where
  "to_json1D h v = to_json (\<lambda>b. Inr (JUint (bucket_get b))) h v"

definition to_json2D :: "histogram2D_t \<Rightarrow> json \<Rightarrow> error + json" where
  "to_json2D h v = to_json (\<lambda>c. to_json1D c (JObject [])) h v"

section \<open>The trace\<close>

text \<open>
  Modelled from the spec: the class \<^verbatim>\<open>call_tree_t\<close> is defined outside
  \<^verbatim>\<open>histogram_aggregator.hpp\<close>, which only calls it. The spec requires of a trace that it exposes, for any node identifier,
  a start time and a stop time, and a mapping from action code to the sequence of node
  identifiers carrying that code. A trace is modelled as exactly these three observers, so
  every theorem holds for whatever tree stands behind them. The times are 64 bits wide,
  the width of the variable \<^verbatim>\<open>delta\<close> that receives their difference.
\<close>

type_synonym p_node_t = nat
type_synonym code_to_node_map = "cint \<Rightarrow> p_node_t list option"

record call_tree_t =
  get_node_start_time :: "p_node_t \<Rightarrow> int64_t"
  get_node_stop_time :: "p_node_t \<Rightarrow> int64_t"
  get_action_codes_to_nodes_map :: code_to_node_map

section \<open>\<^verbatim>\<open>histogram_updater_t<HistogramType>\<close>\<close>

text \<open>
  An updater is its pure virtual call operator, the one that takes the index. The call
  operator without index is the base class's: it derives the index from the trace and
  delegates.
\<close>

type_synonym 'h histogram_updater_t = "'h \<Rightarrow> call_tree_t \<Rightarrow> code_to_node_map \<Rightarrow> error + 'h"

definition updater_call :: "'h histogram_updater_t \<Rightarrow> 'h \<Rightarrow> call_tree_t \<Rightarrow> error + 'h" where
  "updater_call updater histogram call_tree =
     updater histogram call_tree (get_action_codes_to_nodes_map call_tree)"

text \<open>
  \<^verbatim>\<open>action_time_histogram_updater_t\<close>: the loop over the nodes found for the bound code.
  \<^verbatim>\<open>delta\<close> is an \<^verbatim>\<open>int64_t\<close>; \<^verbatim>\<open>histogram.update(delta)\<close> passes it to an
  \<^verbatim>\<open>int\<close> parameter.
\<close>

fun action_time_loop ::
  "histogram1D_t \<Rightarrow> call_tree_t \<Rightarrow> p_node_t list \<Rightarrow> error + histogram1D_t" where
  "action_time_loop histogram call_tree [] = Inr histogram"
| "action_time_loop histogram call_tree (it # rest) =
     (let delta = get_node_stop_time call_tree it - get_node_start_time call_tree it
      in case update1D histogram (int64_to_int delta) of
           Inl e \<Rightarrow> Inl e
         | Inr histogram' \<Rightarrow> action_time_loop histogram' call_tree rest)"

definition action_time_histogram_updater_t :: "cint \<Rightarrow> histogram1D_t histogram_updater_t" where
  "action_time_histogram_updater_t action_code histogram call_tree action_codes_to_nodes_map =
     (case action_codes_to_nodes_map action_code of
        None \<Rightarrow> Inr histogram
      | Some action_code_nodes \<Rightarrow> action_time_loop histogram call_tree action_code_nodes)"

section \<open>\<^verbatim>\<open>histogram_aggregator_t<HistogramType>\<close>\<close>

record 'h histogram_aggregator_t =
  histogram :: 'h
  histogram_updater :: "'h histogram_updater_t"

text \<open>The constructor; \<open>h\<close> is \<^verbatim>\<open>histogram(ticks...)\<close>.\<close>

definition histogram_aggregator_t ::
  "'h histogram_updater_t \<Rightarrow> 'h \<Rightarrow> 'h histogram_aggregator_t" where
  "histogram_aggregator_t updater h = \<lparr>histogram = h, histogram_updater = updater\<rparr>"

text \<open>\<^verbatim>\<open>aggregate(call_tree)\<close>\<close>

definition aggregate ::
  "'h histogram_aggregator_t \<Rightarrow> call_tree_t \<Rightarrow> error + 'h histogram_aggregator_t" where
  "aggregate agg call_tree =
     (case updater_call (histogram_updater agg) (histogram agg) call_tree of
        Inl e \<Rightarrow> Inl e
      | Inr h \<Rightarrow> Inr (agg\<lparr>histogram := h\<rparr>))"

text \<open>\<^verbatim>\<open>aggregate(call_tree, action_codes_to_nodes_map)\<close>\<close>

definition aggregate_with_map ::
  "'h histogram_aggregator_t \<Rightarrow> call_tree_t \<Rightarrow> code_to_node_map \<Rightarrow>
   error + 'h histogram_aggregator_t" where
  "aggregate_with_map agg call_tree action_codes_to_nodes_map =
     (case histogram_updater agg (histogram agg) call_tree action_codes_to_nodes_map of
        Inl e \<Rightarrow> Inl e
      | Inr h \<Rightarrow> Inr (agg\<lparr>histogram := h\<rparr>))"

text \<open>
  A sequence of calls on one aggregator, in either form; it stops at the first call
  that fails.
\<close>

datatype aggregate_call =
  Aggregate call_tree_t
| Aggregate_with_map call_tree_t code_to_node_map

fun run_call ::
  "'h histogram_aggregator_t \<Rightarrow> aggregate_call \<Rightarrow> error + 'h histogram_aggregator_t" where
  "run_call agg (Aggregate call_tree) = aggregate agg call_tree"
| "run_call agg (Aggregate_with_map call_tree m) = aggregate_with_map agg call_tree m"

fun run_calls ::
  "'h histogram_aggregator_t \<Rightarrow> aggregate_call list \<Rightarrow> error + 'h histogram_aggregator_t" where
  "run_calls agg [] = Inr agg"
| "run_calls agg (c # cs) =
     (case run_call agg c of Inl e \<Rightarrow> Inl e | Inr agg' \<Rightarrow> run_calls agg' cs)"

text \<open>The nodes a call of the action time updater visits.\<close>

definition nodes_of :: "code_to_node_map \<Rightarrow> cint \<Rightarrow> p_node_t list" where
  "nodes_of m action_code = (case m action_code of None \<Rightarrow> [] | Some ns \<Rightarrow> ns)"

fun visited :: "cint \<Rightarrow> aggregate_call \<Rightarrow> nat" where
  "visited action_code (Aggregate call_tree) =
     length (nodes_of (get_action_codes_to_nodes_map call_tree) action_code)"
| "visited action_code (Aggregate_with_map call_tree m) = length (nodes_of m action_code)"

section \<open>\<^verbatim>\<open>batch_histogram_aggregator_t<HistogramType>\<close>\<close>

text \<open>
  The batch owns a vector of aggregators. Its \<^verbatim>\<open>aggregate\<close> is a loop whose body is
  \<^verbatim>\<open>(*it)->aggregate(call_tree, call_tree.get_action_codes_to_nodes_map())\<close>.
  To state how often the index is derived, the loop also returns the calls it made, in
  order: the argument \<^verbatim>\<open>call_tree.get_action_codes_to_nodes_map()\<close> is evaluated, then
  the child at position \<open>k\<close> is called.
\<close>

type_synonym 'h batch_histogram_aggregator_t = "'h histogram_aggregator_t list"

definition add_histogram_aggregator ::
  "'h batch_histogram_aggregator_t \<Rightarrow> 'h histogram_updater_t \<Rightarrow> 'h \<Rightarrow>
   'h batch_histogram_aggregator_t" where
  "add_histogram_aggregator batch updater h = batch @ [histogram_aggregator_t updater h]"

datatype call = Get_action_codes_to_nodes_map | Child_aggregate nat

fun batch_loop ::
  "'h histogram_aggregator_t list \<Rightarrow> nat \<Rightarrow> call_tree_t \<Rightarrow>
   call list \<times> (error + 'h histogram_aggregator_t list)" where
  "batch_loop [] k call_tree = ([], Inr [])"
| "batch_loop (it # rest) k call_tree =
     (let m = get_action_codes_to_nodes_map call_tree
      in case aggregate_with_map it call_tree m of
           Inl e \<Rightarrow> ([Get_action_codes_to_nodes_map, Child_aggregate k], Inl e)
         | Inr it' \<Rightarrow>
             (case batch_loop rest (k + 1) call_tree of
                (calls, r) \<Rightarrow>
                  (Get_action_codes_to_nodes_map # Child_aggregate k # calls,
                   case r of Inl e \<Rightarrow> Inl e | Inr rest' \<Rightarrow> Inr (it' # rest'))))"

definition batch_aggregate ::
  "'h batch_histogram_aggregator_t \<Rightarrow> call_tree_t \<Rightarrow> error + 'h batch_histogram_aggregator_t" where
  "batch_aggregate batch call_tree = snd (batch_loop batch 0 call_tree)"

definition batch_aggregate_calls ::
  "'h batch_histogram_aggregator_t \<Rightarrow> call_tree_t \<Rightarrow> call list" where
  "batch_aggregate_calls batch call_tree = fst (batch_loop batch 0 call_tree)"

section \<open>Well-formed histograms\<close>

text \<open>
  What the constructor establishes and \<^verbatim>\<open>update\<close> keeps: as many children as ticks,
  and the sentinel last.
\<close>

definition wf_histogram :: "'b histogram_t \<Rightarrow> bool" where
  "wf_histogram h =
     (length (buckets h) = length (ticks h) \<and> ticks h \<noteq> [] \<and> last (ticks h) = INT_MAX)"

definition frequencies :: "histogram1D_t \<Rightarrow> size_t list" where
  "frequencies h = map bucket_get (buckets h)"

text \<open>
  Relations between two states of a one-dimensional histogram, to state how the
  frequencies move: \<open>headroom k h\<close> says that \<open>k\<close> more increments wrap no counter of \<open>h\<close>;
  \<open>grown_by k h h'\<close> says that \<open>h'\<close> has the ticks of \<open>h\<close> and that every frequency of \<open>h'\<close>
  is at least the one of \<open>h\<close> at the same position, and at most \<open>k\<close> more.
\<close>

definition headroom :: "nat \<Rightarrow> histogram1D_t \<Rightarrow> bool" where
  "headroom k h = list_all (\<lambda>b. unat (frequency b) + k < 2 ^ 64) (buckets h)"

definition grown_by :: "nat \<Rightarrow> histogram1D_t \<Rightarrow> histogram1D_t \<Rightarrow> bool" where
  "grown_by k h h' =
     (ticks h' = ticks h \<and>
      list_all2 (\<lambda>b b'. unat (frequency b) \<le> unat (frequency b') \<and>
                         unat (frequency b') \<le> unat (frequency b) + k)
        (buckets h) (buckets h'))"

section \<open>The binary search\<close>

text \<open>
  The loop stays inside its range; on a sequence in ascending order it returns the number
  of elements not greater than the value sought; on any sequence whose last element is
  greater than the value it returns a valid position.
\<close>

lemma ubl_zero: "upper_bound_loop xs val first 0 = first"
  by (subst upper_bound_loop.simps) simp

lemma ubl_left:
  "0 < len \<Longrightarrow> val <s xs ! (first + len div 2) \<Longrightarrow>
   upper_bound_loop xs val first len = upper_bound_loop xs val first (len div 2)"
  by (subst upper_bound_loop.simps) (simp add: Let_def)

lemma ubl_right:
  "0 < len \<Longrightarrow> \<not> val <s xs ! (first + len div 2) \<Longrightarrow>
   upper_bound_loop xs val first len =
   upper_bound_loop xs val (first + len div 2 + 1) (len - len div 2 - 1)"
  by (subst upper_bound_loop.simps) (simp add: Let_def)

lemma ubl_range:
  "first \<le> upper_bound_loop xs val first len \<and> upper_bound_loop xs val first len \<le> first + len"
proof (induction len arbitrary: first rule: less_induct)
  case (less len)
  show ?case
  proof (cases "len = 0")
    case True
    then show ?thesis by (simp add: ubl_zero)
  next
    case False
    then have pos: "0 < len" by simp
    show ?thesis
    proof (cases "val <s xs ! (first + len div 2)")
      case True
      have "len div 2 < len" using pos by simp
      from less.IH [OF this, of first] show ?thesis
        unfolding ubl_left [OF pos True] by linarith
    next
      case False
      have "len - len div 2 - 1 < len" using pos by simp
      from less.IH [OF this, of "first + len div 2 + 1"] show ?thesis
        unfolding ubl_right [OF pos False] using pos by linarith
    qed
  qed
qed

lemma ubl_partition:
  assumes "first + len \<le> length xs"
    and "\<forall>i<first. \<not> val <s xs ! i"
    and "\<forall>i. first + len \<le> i \<and> i < length xs \<longrightarrow> val <s xs ! i"
    and "sorted_wrt (\<lambda>a b. a \<le>s b) xs"
  shows "(\<forall>i<upper_bound_loop xs val first len. \<not> val <s xs ! i) \<and>
         (\<forall>i. upper_bound_loop xs val first len \<le> i \<and> i < length xs \<longrightarrow> val <s xs ! i)"
  using assms
proof (induction len arbitrary: first rule: less_induct)
  case (less len)
  show ?case
  proof (cases "len = 0")
    case True
    with less.prems show ?thesis by (simp add: ubl_zero)
  next
    case False
    then have pos: "0 < len" by simp
    let ?mid = "first + len div 2"
    have mid: "?mid < length xs" using pos less.prems(1) by (simp add: less_le_trans)
    have srt: "\<And>i j. i < j \<Longrightarrow> j < length xs \<Longrightarrow> sint (xs ! i) \<le> sint (xs ! j)"
      using less.prems(4) by (simp add: sorted_wrt_iff_nth_less word_sle_eq)
    show ?thesis
    proof (cases "val <s xs ! ?mid")
      case True
      have lt: "len div 2 < len" using pos by simp
      have a: "first + len div 2 \<le> length xs" using mid by simp
      have c: "\<forall>i. first + len div 2 \<le> i \<and> i < length xs \<longrightarrow> val <s xs ! i"
      proof (intro allI impI)
        fix i assume i: "first + len div 2 \<le> i \<and> i < length xs"
        show "val <s xs ! i"
        proof (cases "i = ?mid")
          case True with \<open>val <s xs ! ?mid\<close> show ?thesis by simp
        next
          case False
          with i have "?mid < i" by simp
          from srt [OF this] i True show ?thesis by (simp add: word_sless_alt)
        qed
      qed
      from less.IH [OF lt a less.prems(2) c less.prems(4)] show ?thesis
        unfolding ubl_left [OF pos True] .
    next
      case False
      have lt: "len - len div 2 - 1 < len" using pos by simp
      have a: "?mid + 1 + (len - len div 2 - 1) \<le> length xs" using pos less.prems(1) by simp
      have b: "\<forall>i<?mid + 1. \<not> val <s xs ! i"
      proof (intro allI impI)
        fix i assume i: "i < ?mid + 1"
        show "\<not> val <s xs ! i"
        proof (cases "i = ?mid")
          case True with False show ?thesis by simp
        next
          case ne: False
          with i have "i < ?mid" by simp
          from srt [OF this mid] False show ?thesis by (simp add: word_sless_alt)
        qed
      qed
      have c: "\<forall>i. ?mid + 1 + (len - len div 2 - 1) \<le> i \<and> i < length xs \<longrightarrow> val <s xs ! i"
        using less.prems(3) pos by simp
      from less.IH [OF lt a b c less.prems(4)] show ?thesis
        unfolding ubl_right [OF pos False] .
    qed
  qed
qed


lemma ubl_inside:
  assumes "first + len \<le> length xs"
    and "first + len = length xs \<longrightarrow> 0 < len \<and> val <s last xs"
  shows "upper_bound_loop xs val first len < length xs"
  using assms
proof (induction len arbitrary: first rule: less_induct)
  case (less len)
  show ?case
  proof (cases "len = 0")
    case True
    with less.prems show ?thesis by (simp add: ubl_zero)
  next
    case False
    then have pos: "0 < len" by simp
    let ?mid = "first + len div 2"
    have mid: "?mid < length xs" using pos less.prems(1) by (simp add: less_le_trans)
    show ?thesis
    proof (cases "val <s xs ! ?mid")
      case True
      have lt: "len div 2 < len" using pos by simp
      have a: "first + len div 2 \<le> length xs" using mid by simp
      have b: "first + len div 2 = length xs \<longrightarrow> 0 < len div 2 \<and> val <s last xs"
        using mid by simp
      from less.IH [OF lt a b] show ?thesis
        unfolding ubl_left [OF pos True] .
    next
      case False
      have lt: "len - len div 2 - 1 < len" using pos by simp
      have a: "?mid + 1 + (len - len div 2 - 1) \<le> length xs" using pos less.prems(1) by simp
      have b: "?mid + 1 + (len - len div 2 - 1) = length xs \<longrightarrow>
                 0 < len - len div 2 - 1 \<and> val <s last xs"
      proof
        assume e: "?mid + 1 + (len - len div 2 - 1) = length xs"
        then have full: "first + len = length xs" using pos by simp
        with less.prems(2) have lastgt: "val <s last xs" by simp
        have "len - len div 2 - 1 \<noteq> 0"
        proof
          assume z: "len - len div 2 - 1 = 0"
          with e have "?mid = length xs - 1" by simp
          moreover have "xs \<noteq> []" using mid by auto
          ultimately have "xs ! ?mid = last xs" by (simp add: last_conv_nth)
          with lastgt False show False by simp
        qed
        with lastgt show "0 < len - len div 2 - 1 \<and> val <s last xs" by simp
      qed
      from less.IH [OF lt a b] show ?thesis
        unfolding ubl_right [OF pos False] .
    qed
  qed
qed

lemma sle_INT_MAX: "x \<le>s INT_MAX"
proof -
  have "sint x < 2 ^ (LENGTH(32) - 1)" by (rule sint_lt)
  then show ?thesis by (simp add: word_sle_eq INT_MAX_def)
qed

lemma upper_bound_le_length: "upper_bound xs val \<le> length xs"
  using ubl_range [of 0 xs val "length xs"] by (simp add: upper_bound_def)

lemma upper_bound_sentinel:
  assumes "val <s INT_MAX"
  shows "upper_bound (T @ [INT_MAX]) val < length T + 1"
  using ubl_inside [of 0 "length (T @ [INT_MAX])" "T @ [INT_MAX]" val] assms
  by (simp add: upper_bound_def)

lemma upper_bound_last:
  assumes "xs \<noteq> []" and "val <s last xs"
  shows "upper_bound xs val < length xs"
  using ubl_inside [of 0 "length xs" xs val] assms
  by (simp add: upper_bound_def)

lemma filter_prefix_count:
  assumes "r \<le> length xs"
    and "\<forall>i<r. P (xs ! i)"
    and "\<forall>i. r \<le> i \<and> i < length xs \<longrightarrow> \<not> P (xs ! i)"
  shows "filter P xs = take r xs"
proof -
  have "filter P (take r xs) = take r xs"
    using assms(1,2) by (auto simp: filter_id_conv in_set_conv_nth)
  moreover have "filter P (drop r xs) = []"
    using assms(1,3) by (auto simp: filter_empty_conv in_set_conv_nth)
  moreover have "filter P xs = filter P (take r xs) @ filter P (drop r xs)"
    unfolding filter_append [symmetric] by simp
  ultimately show ?thesis by simp
qed

lemma upper_bound_sorted:
  assumes "sorted_wrt (\<lambda>a b. a \<le>s b) xs"
  shows "(\<forall>i<upper_bound xs val. xs ! i \<le>s val) \<and>
         (\<forall>i. upper_bound xs val \<le> i \<and> i < length xs \<longrightarrow> val <s xs ! i)"
  using ubl_partition [of 0 "length xs" xs val] assms
  by (simp add: upper_bound_def word_sless_alt word_sle_eq not_less)

lemma upper_bound_count:
  assumes "sorted_wrt (\<lambda>a b. a \<le>s b) xs"
  shows "upper_bound xs val = length (filter (\<lambda>t. t \<le>s val) xs)"
proof -
  have "filter (\<lambda>t. t \<le>s val) xs = take (upper_bound xs val) xs"
    using upper_bound_sorted [OF assms, of val] upper_bound_le_length [of xs val]
    by (intro filter_prefix_count) (auto simp: word_sless_alt word_sle_eq)
  then show ?thesis using upper_bound_le_length [of xs val] by simp
qed

lemma sorted_with_sentinel:
  assumes "sorted_wrt (\<lambda>a b. a <s b) T"
  shows "sorted_wrt (\<lambda>a b. a \<le>s b) (T @ [INT_MAX])"
proof -
  have "sorted_wrt (\<lambda>a b. a \<le>s b) T"
    using assms by (rule sorted_wrt_mono_rel [rotated]) (simp add: word_sless_alt word_sle_eq)
  then show ?thesis by (simp add: sorted_wrt_append sle_INT_MAX)
qed

section \<open>The constructor and the invariant\<close>

lemma ticks_histogram_t: "ticks (histogram_t T c) = T @ [INT_MAX]"
  by (simp add: histogram_t_def)

lemma buckets_histogram_t: "buckets (histogram_t T c) = replicate (length T + 1) c"
  by (simp add: histogram_t_def)

lemma wf_histogram_t: "wf_histogram (histogram_t T c)"
  by (simp add: wf_histogram_def histogram_t_def)

lemma update_Inr:
  assumes "update cu h m ms = Inr h'"
  shows "upper_bound (ticks h) m < length (buckets h) \<and>
         (\<exists>c. cu (buckets h ! upper_bound (ticks h) m) ms = Inr c \<and>
              h' = h\<lparr>buckets := (buckets h)[upper_bound (ticks h) m := c]\<rparr>)"
  using assms
  by (auto simp: update_def Let_def split: if_splits sum.splits)

lemma update_wf:
  assumes "update cu h m ms = Inr h'" and "wf_histogram h"
  shows "wf_histogram h' \<and> ticks h' = ticks h"
  using update_Inr [OF assms(1)] assms(2)
  by (auto simp: wf_histogram_def)

lemma update1D_Inr:
  assumes "update1D h m = Inr h'"
  shows "upper_bound (ticks h) m < length (buckets h) \<and>
         h' = h\<lparr>buckets := (buckets h)[upper_bound (ticks h) m :=
                   bucket_update (buckets h ! upper_bound (ticks h) m)]\<rparr>"
  using update_Inr [OF assms [unfolded update1D_def]] by auto

lemma update1D_below_max:
  assumes "wf_histogram h" and "m <s INT_MAX"
  shows "update1D h m = Inr (h\<lparr>buckets := (buckets h)[upper_bound (ticks h) m :=
                   bucket_update (buckets h ! upper_bound (ticks h) m)]\<rparr>)"
proof -
  have "upper_bound (ticks h) m < length (ticks h)"
    using assms by (intro upper_bound_last) (simp_all add: wf_histogram_def)
  then show ?thesis
    using assms(1) by (simp add: update1D_def update_def wf_histogram_def Let_def)
qed

text \<open>The position chosen on ascending ticks, for a measurement below the sentinel.\<close>

lemma position_below_max:
  assumes "sorted_wrt (\<lambda>a b. a <s b) T" and "m <s INT_MAX"
  shows "upper_bound (T @ [INT_MAX]) m = length (filter (\<lambda>t. t \<le>s m) T)"
proof -
  have "\<not> INT_MAX \<le>s m" using assms(2) by (simp add: word_sless_alt word_sle_eq)
  then show ?thesis
    using upper_bound_count [OF sorted_with_sentinel [OF assms(1)], of m] by simp
qed

lemma count_le_length: "length (filter P T) < length T + 1"
  using length_filter_le [of P T] by (simp add: le_imp_less_Suc)

lemma update_selects_bucket:
  assumes "sorted_wrt (\<lambda>a b. a <s b) T" and "m <s INT_MAX"
    and "ticks h = T @ [INT_MAX]" and "length (buckets h) = length T + 1"
  shows "update cu h m ms =
           (case cu (buckets h ! length (filter (\<lambda>t. t \<le>s m) T)) ms of
              Inl e \<Rightarrow> Inl e
            | Inr c \<Rightarrow> Inr (h\<lparr>buckets := (buckets h)[length (filter (\<lambda>t. t \<le>s m) T) := c]\<rparr>))"
  using position_below_max [OF assms(1,2)] assms(3,4) count_le_length [of "\<lambda>t. t \<le>s m" T]
  by (simp add: update_def Let_def)

text \<open>
  The spec's scenario in two dimensions, outer ticks \<open>[10]\<close> and inner ticks \<open>[5]\<close>: the
  pair \<open>(3, 2)\<close> goes to the first child's first bucket, the pair \<open>(12, 8)\<close> to the last
  child's last bucket.
\<close>

lemma scenario_two_dimensions:
  "update2D (histogram2D_t [10] [5]) 3 2 =
     Inr \<lparr>ticks = [10, INT_MAX],
          buckets = [\<lparr>ticks = [5, INT_MAX], buckets = [\<lparr>frequency = 1\<rparr>, \<lparr>frequency = 0\<rparr>]\<rparr>,
                     \<lparr>ticks = [5, INT_MAX], buckets = [\<lparr>frequency = 0\<rparr>, \<lparr>frequency = 0\<rparr>]\<rparr>]\<rparr> \<and>
   update2D (histogram2D_t [10] [5]) 12 8 =
     Inr \<lparr>ticks = [10, INT_MAX],
          buckets = [\<lparr>ticks = [5, INT_MAX], buckets = [\<lparr>frequency = 0\<rparr>, \<lparr>frequency = 0\<rparr>]\<rparr>,
                     \<lparr>ticks = [5, INT_MAX], buckets = [\<lparr>frequency = 0\<rparr>, \<lparr>frequency = 1\<rparr>]\<rparr>]\<rparr>"
  by (simp add: histogram2D_t_def histogram1D_t_def histogram_t_def update2D_def update1D_def
      update_def bucket_t_init_def bucket_update_def upper_bound_def upper_bound_loop.simps
      INT_MAX_def)

section \<open>Claims about \<^verbatim>\<open>update\<close>\<close>

text \<open>
  Claim C1: for a histogram built from strictly ascending ticks \<open>T\<close> and every measurement
  \<open>m\<close>, \<^verbatim>\<open>update\<close> increments exactly the child whose position is the number of ticks
  not greater than \<open>m\<close>. Lemma \<open>update_selects_bucket\<close> shows this for every \<open>m\<close> below
  \<^verbatim>\<open>INT_MAX\<close>. At \<open>m = INT_MAX\<close> the code does otherwise: with ticks \<open>[10, 20]\<close>
  both ticks are not greater than \<open>m\<close>, so the child at position 2 (the last of three) is
  the one to increment, but the search runs over the ticks with the sentinel, finds no
  element greater than \<open>m\<close>, and returns position 3, one past the last child.
\<close>

theorem C1_update_at_INT_MAX:
  "sorted_wrt (\<lambda>a b. a <s b) [10, 20 :: cint] \<and>
   length (filter (\<lambda>t. t \<le>s INT_MAX) [10, 20 :: cint]) = 2 \<and>
   buckets (histogram1D_t [10, 20]) = [bucket_t_init, bucket_t_init, bucket_t_init] \<and>
   upper_bound (ticks (histogram1D_t [10, 20])) INT_MAX = 3 \<and>
   update1D (histogram1D_t [10, 20]) INT_MAX = Inl Out_of_range"
  by (simp add: histogram1D_t_def histogram_t_def update1D_def update_def
      upper_bound_def upper_bound_loop.simps INT_MAX_def numeral_3_eq_3)

text \<open>
  Claim C2: for every measurement, \<^verbatim>\<open>INT_MAX\<close> included, the position \<^verbatim>\<open>update\<close> selects
  is a valid index into the children. The sentinel equals \<^verbatim>\<open>INT_MAX\<close> and the search looks
  for an element strictly greater, so at \<open>m = INT_MAX\<close> the position is the number of
  children, and \<^verbatim>\<open>buckets[position]\<close> is past the end. The action time updater reaches
  this with a node that lasts \<open>2147483647\<close> time units.
\<close>

theorem C2_sentinel_misses_INT_MAX:
  "upper_bound (ticks (histogram1D_t [])) INT_MAX = length (buckets (histogram1D_t [])) \<and>
   update1D (histogram1D_t []) INT_MAX = Inl Out_of_range \<and>
   int64_to_int (2147483647 - 0) = INT_MAX \<and>
   aggregate (histogram_aggregator_t (action_time_histogram_updater_t 5) (histogram1D_t [10, 20]))
     \<lparr>get_node_start_time = (\<lambda>n. 0), get_node_stop_time = (\<lambda>n. 2147483647),
      get_action_codes_to_nodes_map = [5 \<mapsto> [0]]\<rparr> = Inl Out_of_range"
  by (simp add: histogram1D_t_def histogram_t_def update1D_def update_def
      upper_bound_def upper_bound_loop.simps INT_MAX_def int64_to_int_def
      aggregate_def updater_call_def action_time_histogram_updater_t_def histogram_aggregator_t_def
      numeral_3_eq_3)

section \<open>Claims about construction\<close>

lemma update_fresh_any_ticks:
  assumes "m <s INT_MAX"
  shows "update cu (histogram_t T c) m ms =
           (case cu c ms of
              Inl e \<Rightarrow> Inl e
            | Inr c' \<Rightarrow>
                Inr \<lparr>ticks = T @ [INT_MAX],
                     buckets = (replicate (length T + 1) c)[upper_bound (T @ [INT_MAX]) m := c']\<rparr>)"
proof -
  let ?p = "upper_bound (T @ [INT_MAX]) m"
  have p: "?p < length T + 1" using assms by (rule upper_bound_sentinel)
  then have "replicate (length T + 1) c ! ?p = c" by (rule nth_replicate)
  with p show ?thesis
    by (cases "cu c ms") (simp_all add: update_def histogram_t_def Let_def del: replicate.simps)
qed

lemma update1D_fresh_any_ticks:
  assumes "m <s INT_MAX"
  shows "update1D (histogram1D_t T) m =
           Inr \<lparr>ticks = T @ [INT_MAX],
                buckets = (replicate (length T + 1) \<lparr>frequency = 0\<rparr>)
                            [upper_bound (T @ [INT_MAX]) m := \<lparr>frequency = 1\<rparr>]\<rparr>"
  using update_fresh_any_ticks [OF assms, of "\<lambda>b (u :: unit). Inr (bucket_update b)" T bucket_t_init "()"]
  by (simp add: update1D_def histogram1D_t_def bucket_t_init_def bucket_update_def
      del: replicate.simps)

text \<open>
  Claim C3: a tick sequence that is not strictly ascending makes construction fail with a
  configuration error, instead of misbehaving at update time. The constructor has no
  check at all. The ticks \<open>[20, 10]\<close> give a histogram like any other, and a later update
  with 15 lands in the last child, though the first tick, 20, is already greater than 15.
\<close>

theorem C3_unsorted_ticks_accepted:
  "\<not> sorted_wrt (\<lambda>a b. a <s b) [20, 10 :: cint] \<and>
   histogram1D_t [20, 10] =
     \<lparr>ticks = [20, 10, INT_MAX],
      buckets = [\<lparr>frequency = 0\<rparr>, \<lparr>frequency = 0\<rparr>, \<lparr>frequency = 0\<rparr>]\<rparr> \<and>
   update1D (histogram1D_t [20, 10]) 15 =
     Inr \<lparr>ticks = [20, 10, INT_MAX],
          buckets = [\<lparr>frequency = 0\<rparr>, \<lparr>frequency = 0\<rparr>, \<lparr>frequency = 1\<rparr>]\<rparr>"
  by (simp add: histogram1D_t_def histogram_t_def update1D_def update_def bucket_t_init_def
      bucket_update_def upper_bound_def upper_bound_loop.simps INT_MAX_def numeral_3_eq_3)

text \<open>
  Claim C3, as amended: construction validates nothing and cannot fail. For every tick
  sequence, strictly ascending or not, it yields the ticks as given followed by the
  sentinel, and one copy of the child per tick, the sentinel's included. An update of that
  histogram with a measurement below \<^verbatim>\<open>INT_MAX\<close> succeeds whenever the child's update
  does, and replaces exactly the child at the position the search returns, a position
  within the children; in one dimension that bucket then holds 1 and the others 0. For
  strictly ascending ticks the position is the number of ticks not greater than the
  measurement.
\<close>

theorem C3_construction_validates_nothing:
  "ticks (histogram_t T c) = T @ [INT_MAX] \<and>
   buckets (histogram_t T c) = replicate (length T + 1) c \<and>
   (m <s INT_MAX \<longrightarrow>
      upper_bound (T @ [INT_MAX]) m \<le> length T \<and>
      update cu (histogram_t T c) m ms =
        (case cu c ms of
           Inl e \<Rightarrow> Inl e
         | Inr c' \<Rightarrow>
             Inr \<lparr>ticks = T @ [INT_MAX],
                  buckets = (replicate (length T + 1) c)[upper_bound (T @ [INT_MAX]) m := c']\<rparr>) \<and>
      update1D (histogram1D_t T) m =
        Inr \<lparr>ticks = T @ [INT_MAX],
             buckets = (replicate (length T + 1) \<lparr>frequency = 0\<rparr>)
                         [upper_bound (T @ [INT_MAX]) m := \<lparr>frequency = 1\<rparr>]\<rparr>) \<and>
   (sorted_wrt (\<lambda>a b. a <s b) T \<and> m <s INT_MAX \<longrightarrow>
      upper_bound (T @ [INT_MAX]) m = length (filter (\<lambda>t. t \<le>s m) T))"
proof (intro conjI impI)
  show "ticks (histogram_t T c) = T @ [INT_MAX]" by (rule ticks_histogram_t)
  show "buckets (histogram_t T c) = replicate (length T + 1) c" by (rule buckets_histogram_t)
next
  assume m: "m <s INT_MAX"
  from upper_bound_sentinel [OF m, of T] show "upper_bound (T @ [INT_MAX]) m \<le> length T"
    by simp
  from m show "update cu (histogram_t T c) m ms =
        (case cu c ms of
           Inl e \<Rightarrow> Inl e
         | Inr c' \<Rightarrow>
             Inr \<lparr>ticks = T @ [INT_MAX],
                  buckets = (replicate (length T + 1) c)[upper_bound (T @ [INT_MAX]) m := c']\<rparr>)"
    by (rule update_fresh_any_ticks)
  from m show "update1D (histogram1D_t T) m =
        Inr \<lparr>ticks = T @ [INT_MAX],
             buckets = (replicate (length T + 1) \<lparr>frequency = 0\<rparr>)
                         [upper_bound (T @ [INT_MAX]) m := \<lparr>frequency = 1\<rparr>]\<rparr>"
    by (rule update1D_fresh_any_ticks)
next
  assume "sorted_wrt (\<lambda>a b. a <s b) T \<and> m <s INT_MAX"
  then show "upper_bound (T @ [INT_MAX]) m = length (filter (\<lambda>t. t \<le>s m) T)"
    by (simp add: position_below_max)
qed

theorem C3_construction_witness:
  "(15 :: cint) <s INT_MAX \<and>
   upper_bound ([20, 10] @ [INT_MAX]) 15 = 2 \<and>
   update1D (histogram1D_t [20, 10]) 15 =
     Inr \<lparr>ticks = [20, 10, INT_MAX],
          buckets = [\<lparr>frequency = 0\<rparr>, \<lparr>frequency = 0\<rparr>, \<lparr>frequency = 1\<rparr>]\<rparr> \<and>
   sorted_wrt (\<lambda>a b. a <s b) [10, 20 :: cint] \<and>
   upper_bound ([10, 20] @ [INT_MAX]) 15 = length (filter (\<lambda>t. t \<le>s 15) [10, 20 :: cint]) \<and>
   update1D (histogram1D_t [10, 20]) 15 =
     Inr \<lparr>ticks = [10, 20, INT_MAX],
          buckets = [\<lparr>frequency = 0\<rparr>, \<lparr>frequency = 1\<rparr>, \<lparr>frequency = 0\<rparr>]\<rparr>"
proof -
  have m: "(15 :: cint) <s INT_MAX" by (simp add: INT_MAX_def)
  have p: "upper_bound ([20, 10] @ [INT_MAX]) 15 = 2"
    by (simp add: upper_bound_def upper_bound_loop.simps INT_MAX_def numeral_3_eq_3)
  have s: "sorted_wrt (\<lambda>a b. a <s b) [10, 20 :: cint]" by simp
  note a = C3_construction_validates_nothing [of "[20, 10]" bucket_t_init 15
      "\<lambda>b (u :: unit). Inr (bucket_update b)" "()"]
  note b = C3_construction_validates_nothing [of "[10, 20]" bucket_t_init 15
      "\<lambda>b (u :: unit). Inr (bucket_update b)" "()"]
  have q: "upper_bound ([10, 20] @ [INT_MAX]) 15 = length (filter (\<lambda>t. t \<le>s 15) [10, 20 :: cint])"
    using b s m by blast
  have u1: "update1D (histogram1D_t [20, 10]) 15 =
     Inr \<lparr>ticks = [20, 10, INT_MAX],
          buckets = [\<lparr>frequency = 0\<rparr>, \<lparr>frequency = 0\<rparr>, \<lparr>frequency = 1\<rparr>]\<rparr>"
    using a [THEN conjunct2, THEN conjunct2, THEN conjunct1, rule_format, OF m] p
    by (simp add: numeral_3_eq_3)
  have u2: "update1D (histogram1D_t [10, 20]) 15 =
     Inr \<lparr>ticks = [10, 20, INT_MAX],
          buckets = [\<lparr>frequency = 0\<rparr>, \<lparr>frequency = 1\<rparr>, \<lparr>frequency = 0\<rparr>]\<rparr>"
    using b [THEN conjunct2, THEN conjunct2, THEN conjunct1, rule_format, OF m] q
    by (simp add: numeral_3_eq_3)
  show ?thesis by (intro conjI m p s q u1 u2)
qed

section \<open>Claims about serialisation\<close>

lemma to_json_loop_ok:
  assumes "\<forall>i\<in>set js. i < length (buckets h) \<and> bv (buckets h ! i) = Inr (g (buckets h ! i))"
  shows "to_json_loop bv h js (JObject ms) =
         Inr (JObject (ms @ map (\<lambda>i. (label (ticks h ! i), g (buckets h ! i))) js))"
  using assms by (induction js arbitrary: ms) simp_all

lemma map_index_zip:
  assumes "length ys = length xs"
  shows "map (\<lambda>i. f (xs ! i) (ys ! i)) [0..<length xs] = map2 f xs ys"
  using assms by (intro nth_equalityI) simp_all

lemma to_json_ok:
  assumes "length (buckets h) = length (ticks h)"
    and "\<forall>b\<in>set (buckets h). bv b = Inr (g b)"
  shows "to_json bv h (JObject ms) =
         Inr (JObject (ms @ map2 (\<lambda>t b. (label t, g b)) (ticks h) (buckets h)))"
proof -
  have "\<forall>i\<in>set [0..<length (ticks h)].
          i < length (buckets h) \<and> bv (buckets h ! i) = Inr (g (buckets h ! i))"
    using assms by simp
  from to_json_loop_ok [OF this, of ms]
  show ?thesis
    using map_index_zip [OF assms(1), of "\<lambda>t b. (label t, g b)"]
    by (simp add: to_json_def)
qed

lemma to_json1D_ok:
  assumes "length (buckets h) = length (ticks h)"
  shows "to_json1D h (JObject []) =
         Inr (JObject (map2 (\<lambda>t b. (label t, JUint (frequency b))) (ticks h) (buckets h)))"
  using to_json_ok [OF assms, of "\<lambda>b. Inr (JUint (bucket_get b))" "\<lambda>b. JUint (frequency b)" "[]"]
  by (simp add: to_json1D_def bucket_get_def)

lemma to_json2D_ok:
  assumes "length (buckets H) = length (ticks H)"
    and "\<forall>c\<in>set (buckets H). length (buckets c) = length (ticks c)"
  shows "to_json2D H (JObject []) =
         Inr (JObject (map2 (\<lambda>t c. (label t,
                JObject (map2 (\<lambda>u b. (label u, JUint (frequency b))) (ticks c) (buckets c))))
              (ticks H) (buckets H)))"
proof -
  have "\<forall>c\<in>set (buckets H). to_json1D c (JObject []) =
          Inr (JObject (map2 (\<lambda>u b. (label u, JUint (frequency b))) (ticks c) (buckets c)))"
    using assms(2) by (simp add: to_json1D_ok)
  from to_json_ok [OF assms(1) this, of "[]"] show ?thesis
    by (simp add: to_json2D_def)
qed

lemma label_INT_MAX: "label INT_MAX = ''<2147483647''"
  by (simp add: label_def to_string_def INT_MAX_def nat_digits.simps digit_char_def)

text \<open>
  Claim C9: serialisation emits one entry per tick position, in tick order; the key is
  \<open>"<"\<close> followed by the tick's decimal value, which for the last entry is the sentinel's
  literal value 2147483647; the value is the frequency where the child is a bucket and the
  child's own document where it is a histogram; a bucket serialises as an object with the
  single key \<open>frequency\<close>. The histograms are those with as many children as ticks, which
  is what the constructor builds and \<^verbatim>\<open>update\<close> keeps (\<open>wf_histogram_t\<close>, \<open>update_wf\<close>).
\<close>

theorem C9_serialisation:
  "(length (buckets h) = length (ticks h) \<longrightarrow>
      to_json1D h (JObject []) =
        Inr (JObject (map2 (\<lambda>t b. (''<'' @ to_string (sint t), JUint (frequency b)))
               (ticks h) (buckets h)))) \<and>
   (length (buckets H) = length (ticks H) \<and>
    (\<forall>c\<in>set (buckets H). length (buckets c) = length (ticks c)) \<longrightarrow>
      to_json2D H (JObject []) =
        Inr (JObject (map2 (\<lambda>t c. (''<'' @ to_string (sint t),
               JObject (map2 (\<lambda>u b. (''<'' @ to_string (sint u), JUint (frequency b)))
                 (ticks c) (buckets c))))
               (ticks H) (buckets H)))) \<and>
   bucket_to_json b (JObject []) = Inr (JObject [(''frequency'', JUint (frequency b))]) \<and>
   last (ticks (histogram_t T c0)) = INT_MAX \<and>
   ''<'' @ to_string (sint INT_MAX) = ''<2147483647''"
  using to_json1D_ok [of h] to_json2D_ok [of H] label_INT_MAX
  by (simp add: label_def bucket_to_json_def ticks_histogram_t)

theorem C9_serialisation_witness:
  "to_json1D \<lparr>ticks = [10, 20, INT_MAX],
              buckets = [\<lparr>frequency = 1\<rparr>, \<lparr>frequency = 0\<rparr>, \<lparr>frequency = 2\<rparr>]\<rparr> (JObject []) =
     Inr (JObject [(''<10'', JUint 1), (''<20'', JUint 0), (''<2147483647'', JUint 2)]) \<and>
   to_json2D \<lparr>ticks = [10, INT_MAX],
              buckets = [\<lparr>ticks = [5, INT_MAX], buckets = [\<lparr>frequency = 1\<rparr>, \<lparr>frequency = 0\<rparr>]\<rparr>,
                         \<lparr>ticks = [5, INT_MAX], buckets = [\<lparr>frequency = 0\<rparr>, \<lparr>frequency = 1\<rparr>]\<rparr>]\<rparr>
     (JObject []) =
     Inr (JObject [(''<10'', JObject [(''<5'', JUint 1), (''<2147483647'', JUint 0)]),
                   (''<2147483647'', JObject [(''<5'', JUint 0), (''<2147483647'', JUint 1)])])"
  using C9_serialisation [of
      "\<lparr>ticks = [10, 20, INT_MAX],
        buckets = [\<lparr>frequency = 1\<rparr>, \<lparr>frequency = 0\<rparr>, \<lparr>frequency = 2\<rparr>]\<rparr>"
      "\<lparr>ticks = [10, INT_MAX],
        buckets = [\<lparr>ticks = [5, INT_MAX], buckets = [\<lparr>frequency = 1\<rparr>, \<lparr>frequency = 0\<rparr>]\<rparr>,
                   \<lparr>ticks = [5, INT_MAX], buckets = [\<lparr>frequency = 0\<rparr>, \<lparr>frequency = 1\<rparr>]\<rparr>]\<rparr>"
      bucket_t_init "[]" bucket_t_init]
  by (simp add: to_string_def nat_digits.simps digit_char_def INT_MAX_def)

section \<open>A fresh histogram\<close>

lemma map2_replicate:
  "map2 f xs (replicate (length xs) c) = map (\<lambda>x. f x c) xs"
  by (intro nth_equalityI) simp_all

lemma nth_buckets_fresh:
  assumes "i \<le> length T"
  shows "buckets (histogram_t T c) ! i = c"
proof -
  have "i < Suc (length T)" using assms by simp
  then have "replicate (Suc (length T)) c ! i = c" by (rule nth_replicate)
  then show ?thesis by (simp add: buckets_histogram_t)
qed

lemma get1D_fresh:
  assumes "0 \<le> sint i" and "nat (sint i) \<le> length T"
  shows "get1D (histogram1D_t T) i = Inr 0"
proof -
  have "nat (sint i) < length (buckets (histogram1D_t T))"
    using assms(2) by (simp add: histogram1D_t_def buckets_histogram_t)
  moreover have "buckets (histogram1D_t T) ! nat (sint i) = bucket_t_init"
    unfolding histogram1D_t_def by (rule nth_buckets_fresh [OF assms(2)])
  ultimately show ?thesis
    using assms(1) by (simp add: get1D_def get_def bucket_get_def bucket_t_init_def)
qed

lemma get2D_fresh:
  assumes "0 \<le> sint i" and "nat (sint i) \<le> length T"
    and "0 \<le> sint j" and "nat (sint j) \<le> length U"
  shows "get2D (histogram2D_t T U) i j = Inr 0"
proof -
  have "nat (sint i) < length (buckets (histogram2D_t T U))"
    using assms(2) by (simp add: histogram2D_t_def buckets_histogram_t)
  moreover have "buckets (histogram2D_t T U) ! nat (sint i) = histogram1D_t U"
    unfolding histogram2D_t_def by (rule nth_buckets_fresh [OF assms(2)])
  ultimately show ?thesis
    using assms(1) get1D_fresh [OF assms(3,4)] by (simp add: get2D_def get_def)
qed

lemma to_json1D_fresh:
  "to_json1D (histogram1D_t T) (JObject []) =
     Inr (JObject (map (\<lambda>t. (label t, JUint 0)) (T @ [INT_MAX])))"
proof -
  have "length (buckets (histogram1D_t T)) = length (ticks (histogram1D_t T))"
    by (simp add: histogram1D_t_def histogram_t_def)
  from to_json1D_ok [OF this] show ?thesis
    using map2_replicate [of "\<lambda>t b. (label t, JUint (frequency b))" "T @ [INT_MAX]" bucket_t_init]
    by (simp add: histogram1D_t_def histogram_t_def bucket_t_init_def)
qed

lemma to_json2D_fresh:
  "to_json2D (histogram2D_t T U) (JObject []) =
     Inr (JObject (map (\<lambda>t. (label t, JObject (map (\<lambda>u. (label u, JUint 0)) (U @ [INT_MAX]))))
            (T @ [INT_MAX])))"
proof -
  have "\<forall>c\<in>set (buckets (histogram2D_t T U)). to_json1D c (JObject []) =
          Inr (JObject (map (\<lambda>u. (label u, JUint 0)) (U @ [INT_MAX])))"
    by (simp add: histogram2D_t_def histogram_t_def to_json1D_fresh)
  moreover have "length (buckets (histogram2D_t T U)) = length (ticks (histogram2D_t T U))"
    by (simp add: histogram2D_t_def histogram_t_def)
  ultimately have "to_json2D (histogram2D_t T U) (JObject []) =
      Inr (JObject (map2 (\<lambda>t c. (label t, JObject (map (\<lambda>u. (label u, JUint 0)) (U @ [INT_MAX]))))
        (ticks (histogram2D_t T U)) (buckets (histogram2D_t T U))))"
    using to_json_ok [of "histogram2D_t T U" "\<lambda>c. to_json1D c (JObject [])"
        "\<lambda>c. JObject (map (\<lambda>u. (label u, JUint 0)) (U @ [INT_MAX]))" "[]"]
    by (simp add: to_json2D_def)
  then show ?thesis
    using map2_replicate [of "\<lambda>t c. (label t, JObject (map (\<lambda>u. (label u, JUint 0)) (U @ [INT_MAX])))"
        "T @ [INT_MAX]" "histogram1D_t U"]
    by (simp add: histogram2D_t_def histogram_t_def)
qed

lemma frequencies_fresh: "frequencies (histogram1D_t T) = replicate (length T + 1) 0"
  by (simp add: frequencies_def histogram1D_t_def buckets_histogram_t bucket_get_def
      bucket_t_init_def del: replicate.simps)

lemma frequencies2D_fresh:
  "map frequencies (buckets (histogram2D_t T U)) =
     replicate (length T + 1) (replicate (length U + 1) 0)"
  by (simp add: histogram2D_t_def buckets_histogram_t frequencies_fresh del: replicate.simps)

lemma label_10: "label 10 = ''<10''"
  by (simp add: label_def to_string_def nat_digits.simps digit_char_def)

lemma label_20: "label 20 = ''<20''"
  by (simp add: label_def to_string_def nat_digits.simps digit_char_def)

text \<open>
  Claim C10: every bucket of a freshly constructed histogram holds 0, at every level: the
  frequencies, what \<^verbatim>\<open>get\<close> reads at every valid index, and what serialisation
  reports, for the one-dimensional and the two-dimensional histogram; there is one child
  per tick, the sentinel's included.
\<close>

theorem C10_fresh_histogram_is_zero:
  "frequencies (histogram1D_t T) = replicate (length T + 1) 0 \<and>
   map frequencies (buckets (histogram2D_t T U)) =
     replicate (length T + 1) (replicate (length U + 1) 0) \<and>
   length (buckets (histogram1D_t T)) = length (ticks (histogram1D_t T)) \<and>
   length (buckets (histogram2D_t T U)) = length (ticks (histogram2D_t T U)) \<and>
   (\<forall>i. 0 \<le> sint i \<and> nat (sint i) \<le> length T \<longrightarrow> get1D (histogram1D_t T) i = Inr 0) \<and>
   (\<forall>i j. 0 \<le> sint i \<and> nat (sint i) \<le> length T \<and> 0 \<le> sint j \<and> nat (sint j) \<le> length U \<longrightarrow>
      get2D (histogram2D_t T U) i j = Inr 0) \<and>
   to_json1D (histogram1D_t T) (JObject []) =
     Inr (JObject (map (\<lambda>t. (label t, JUint 0)) (T @ [INT_MAX]))) \<and>
   to_json2D (histogram2D_t T U) (JObject []) =
     Inr (JObject (map (\<lambda>t. (label t, JObject (map (\<lambda>u. (label u, JUint 0)) (U @ [INT_MAX]))))
            (T @ [INT_MAX])))"
proof -
  have l1: "length (buckets (histogram1D_t T)) = length (ticks (histogram1D_t T))"
    by (simp add: histogram1D_t_def histogram_t_def)
  have l2: "length (buckets (histogram2D_t T U)) = length (ticks (histogram2D_t T U))"
    by (simp add: histogram2D_t_def histogram_t_def)
  have g1: "\<forall>i. 0 \<le> sint i \<and> nat (sint i) \<le> length T \<longrightarrow> get1D (histogram1D_t T) i = Inr 0"
    by (simp add: get1D_fresh)
  have g2: "\<forall>i j. 0 \<le> sint i \<and> nat (sint i) \<le> length T \<and> 0 \<le> sint j \<and> nat (sint j) \<le> length U \<longrightarrow>
      get2D (histogram2D_t T U) i j = Inr 0"
    by (simp add: get2D_fresh)
  show ?thesis
    by (intro conjI frequencies_fresh frequencies2D_fresh l1 l2 g1 g2 to_json1D_fresh
        to_json2D_fresh)
qed

theorem C10_fresh_histogram_witness:
  "frequencies (histogram1D_t [10, 20]) = [0, 0, 0] \<and>
   get1D (histogram1D_t [10, 20]) 2 = Inr 0 \<and>
   get2D (histogram2D_t [10, 20] [5]) 2 1 = Inr 0 \<and>
   to_json1D (histogram1D_t [10, 20]) (JObject []) =
     Inr (JObject [(''<10'', JUint 0), (''<20'', JUint 0), (''<2147483647'', JUint 0)])"
proof -
  note th = C10_fresh_histogram_is_zero [of "[10, 20]" "[5]"]
  have f: "frequencies (histogram1D_t [10, 20]) = [0, 0, 0]"
    using th [THEN conjunct1] by (simp add: numeral_3_eq_3)
  have g1: "get1D (histogram1D_t [10, 20]) 2 = Inr 0"
    using th [THEN conjunct2, THEN conjunct2, THEN conjunct2, THEN conjunct2, THEN conjunct1,
        rule_format, of 2]
    by simp
  have g2: "get2D (histogram2D_t [10, 20] [5]) 2 1 = Inr 0"
    using th [THEN conjunct2, THEN conjunct2, THEN conjunct2, THEN conjunct2, THEN conjunct2,
        THEN conjunct1, rule_format, of 2 1]
    by simp
  have j: "to_json1D (histogram1D_t [10, 20]) (JObject []) =
     Inr (JObject [(''<10'', JUint 0), (''<20'', JUint 0), (''<2147483647'', JUint 0)])"
    using th [THEN conjunct2, THEN conjunct2, THEN conjunct2, THEN conjunct2, THEN conjunct2,
        THEN conjunct2, THEN conjunct1]
    by (simp add: label_10 label_20 label_INT_MAX)
  show ?thesis by (intro conjI f g1 g2 j)
qed

section \<open>Claims about the aggregators\<close>

text \<open>
  Claim C4: \<^verbatim>\<open>aggregate(trace)\<close> gives the same result, state and all, as
  \<^verbatim>\<open>aggregate(trace, index)\<close> with the index derived from the same trace; the updater's
  call without index derives the index and delegates to the call with index.
\<close>

theorem C4_aggregate_forms_agree:
  "aggregate agg call_tree =
     aggregate_with_map agg call_tree (get_action_codes_to_nodes_map call_tree) \<and>
   updater_call updater h call_tree =
     updater h call_tree (get_action_codes_to_nodes_map call_tree)"
  by (simp add: aggregate_def aggregate_with_map_def updater_call_def)

subsection \<open>The batch\<close>

lemma aggregate_eq:
  "aggregate_with_map agg call_tree (get_action_codes_to_nodes_map call_tree) =
   aggregate agg call_tree"
  by (simp add: aggregate_def aggregate_with_map_def updater_call_def)

lemma batch_loop_result:
  "snd (batch_loop batch k call_tree) = Inr batch' \<longleftrightarrow>
   list_all2 (\<lambda>a a'. aggregate a call_tree = Inr a') batch batch'"
proof (induction batch arbitrary: k batch')
  case Nil
  show ?case by auto
next
  case (Cons a rest)
  show ?case
  proof (cases "aggregate a call_tree")
    case (Inl e)
    then show ?thesis
      by (simp add: aggregate_eq list_all2_Cons1)
  next
    case (Inr a')
    obtain calls r where br: "batch_loop rest (k + 1) call_tree = (calls, r)"
      by (cases "batch_loop rest (k + 1) call_tree")
    have IH: "\<And>rest'. r = Inr rest' \<longleftrightarrow>
        list_all2 (\<lambda>a a'. aggregate a call_tree = Inr a') rest rest'"
      using Cons.IH [of "k + 1"] br by simp
    show ?thesis
    proof (cases r)
      case (Inl e)
      with IH have "\<And>rest'. \<not> list_all2 (\<lambda>a a'. aggregate a call_tree = Inr a') rest rest'"
        by simp
      with Inl Inr br show ?thesis
        by (simp add: aggregate_eq list_all2_Cons1)
    next
      case r: (Inr rest')
      with IH have "\<And>rest''. rest' = rest'' \<longleftrightarrow>
          list_all2 (\<lambda>a a'. aggregate a call_tree = Inr a') rest rest''"
        by simp
      with r Inr br show ?thesis
        by (auto simp: aggregate_eq list_all2_Cons1)
    qed
  qed
qed

lemma batch_loop_calls:
  "snd (batch_loop batch k call_tree) = Inr batch' \<Longrightarrow>
   fst (batch_loop batch k call_tree) =
     concat (map (\<lambda>i. [Get_action_codes_to_nodes_map, Child_aggregate i]) [k..<k + length batch])"
proof (induction batch arbitrary: k batch')
  case Nil
  show ?case by simp
next
  case (Cons a rest)
  obtain calls r where br: "batch_loop rest (k + 1) call_tree = (calls, r)"
    by (cases "batch_loop rest (k + 1) call_tree")
  from Cons.prems br obtain a' rest' where
    a: "aggregate_with_map a call_tree (get_action_codes_to_nodes_map call_tree) = Inr a'"
    and r: "r = Inr rest'"
    by (auto simp: Let_def split: sum.splits)
  from Cons.IH [of "k + 1" rest'] br r
  have "calls = concat (map (\<lambda>i. [Get_action_codes_to_nodes_map, Child_aggregate i])
                  [k + 1..<k + 1 + length rest])"
    by simp
  moreover have "[k..<k + length (a # rest)] = k # [k + 1..<k + 1 + length rest]"
  proof -
    have "k < k + length (a # rest)" by simp
    from upt_conv_Cons [OF this] show ?thesis by (simp del: upt_Suc)
  qed
  moreover have "fst (batch_loop (a # rest) k call_tree) =
      Get_action_codes_to_nodes_map # Child_aggregate k # calls"
    using a br r by simp
  ultimately show ?case by (simp del: upt_Suc length_Cons)
qed

lemma batch_calls_per_child:
  assumes "batch_aggregate batch call_tree = Inr batch'"
  shows "batch_aggregate_calls batch call_tree =
     concat (map (\<lambda>i. [Get_action_codes_to_nodes_map, Child_aggregate i]) [0..<length batch])"
  using batch_loop_calls [of batch 0 call_tree batch'] assms
  by (simp add: batch_aggregate_def batch_aggregate_calls_def)

lemma example_batch:
  "batch_aggregate
     [histogram_aggregator_t (action_time_histogram_updater_t 5) (histogram1D_t [10, 20]),
      histogram_aggregator_t (action_time_histogram_updater_t 7) (histogram1D_t [100])]
     \<lparr>get_node_start_time = (\<lambda>n. 0), get_node_stop_time = (\<lambda>n. [5, 15, 25, 50] ! n),
      get_action_codes_to_nodes_map = [5 \<mapsto> [0, 1, 2], 7 \<mapsto> [3]]\<rparr> =
   Inr [\<lparr>histogram = \<lparr>ticks = [10, 20, INT_MAX],
                       buckets = [\<lparr>frequency = 1\<rparr>, \<lparr>frequency = 1\<rparr>, \<lparr>frequency = 1\<rparr>]\<rparr>,
         histogram_updater = action_time_histogram_updater_t 5\<rparr>,
        \<lparr>histogram = \<lparr>ticks = [100, INT_MAX], buckets = [\<lparr>frequency = 1\<rparr>, \<lparr>frequency = 0\<rparr>]\<rparr>,
         histogram_updater = action_time_histogram_updater_t 7\<rparr>]"
  unfolding batch_aggregate_def
  by (simp add: histogram1D_t_def histogram_t_def update1D_def update_def bucket_t_init_def
      bucket_update_def upper_bound_def upper_bound_loop.simps INT_MAX_def int64_to_int_def
      aggregate_with_map_def action_time_histogram_updater_t_def
      histogram_aggregator_t_def numeral_3_eq_3)

text \<open>
  Claim C5: after \<^verbatim>\<open>batch.aggregate(trace)\<close> every contained aggregator is in the state its
  own \<^verbatim>\<open>aggregate(trace)\<close> gives it. The batch succeeds with the states \<open>batch'\<close> exactly
  when every aggregator, called on its own with the same trace, succeeds with the state at
  the same position of \<open>batch'\<close>.
\<close>

theorem C5_batch_equals_independent:
  "batch_aggregate batch call_tree = Inr batch' \<longleftrightarrow>
   list_all2 (\<lambda>a a'. aggregate a call_tree = Inr a') batch batch'"
  by (simp add: batch_aggregate_def batch_loop_result)

theorem C5_batch_witness:
  "list_all2
     (\<lambda>a a'. aggregate a
        \<lparr>get_node_start_time = (\<lambda>n. 0), get_node_stop_time = (\<lambda>n. [5, 15, 25, 50] ! n),
         get_action_codes_to_nodes_map = [5 \<mapsto> [0, 1, 2], 7 \<mapsto> [3]]\<rparr> = Inr a')
     [histogram_aggregator_t (action_time_histogram_updater_t 5) (histogram1D_t [10, 20]),
      histogram_aggregator_t (action_time_histogram_updater_t 7) (histogram1D_t [100])]
     [\<lparr>histogram = \<lparr>ticks = [10, 20, INT_MAX],
                     buckets = [\<lparr>frequency = 1\<rparr>, \<lparr>frequency = 1\<rparr>, \<lparr>frequency = 1\<rparr>]\<rparr>,
       histogram_updater = action_time_histogram_updater_t 5\<rparr>,
      \<lparr>histogram = \<lparr>ticks = [100, INT_MAX], buckets = [\<lparr>frequency = 1\<rparr>, \<lparr>frequency = 0\<rparr>]\<rparr>,
       histogram_updater = action_time_histogram_updater_t 7\<rparr>]"
  by (rule C5_batch_equals_independent [THEN iffD1, OF example_batch])

text \<open>
  Claim C6: the batch derives the index exactly once per call and then calls every child,
  in insertion order, with that index. The children are called in insertion order with
  the index (\<open>batch_calls_per_child\<close>), but the loop body evaluates
  \<^verbatim>\<open>call_tree.get_action_codes_to_nodes_map()\<close> anew for every child: twice for two
  children, never for an empty batch.
\<close>

theorem C6_index_derived_per_child:
  "batch_aggregate_calls
     [histogram_aggregator_t (action_time_histogram_updater_t 5) (histogram1D_t [10, 20]),
      histogram_aggregator_t (action_time_histogram_updater_t 7) (histogram1D_t [100])]
     \<lparr>get_node_start_time = (\<lambda>n. 0), get_node_stop_time = (\<lambda>n. [5, 15, 25, 50] ! n),
      get_action_codes_to_nodes_map = [5 \<mapsto> [0, 1, 2], 7 \<mapsto> [3]]\<rparr> =
     [Get_action_codes_to_nodes_map, Child_aggregate 0,
      Get_action_codes_to_nodes_map, Child_aggregate 1] \<and>
   length (filter (\<lambda>c. c = Get_action_codes_to_nodes_map)
     (batch_aggregate_calls
       [histogram_aggregator_t (action_time_histogram_updater_t 5) (histogram1D_t [10, 20]),
        histogram_aggregator_t (action_time_histogram_updater_t 7) (histogram1D_t [100])]
       \<lparr>get_node_start_time = (\<lambda>n. 0), get_node_stop_time = (\<lambda>n. [5, 15, 25, 50] ! n),
        get_action_codes_to_nodes_map = [5 \<mapsto> [0, 1, 2], 7 \<mapsto> [3]]\<rparr>)) = 2 \<and>
   batch_aggregate_calls ([] :: histogram1D_t batch_histogram_aggregator_t)
     \<lparr>get_node_start_time = (\<lambda>n. 0), get_node_stop_time = (\<lambda>n. [5, 15, 25, 50] ! n),
      get_action_codes_to_nodes_map = [5 \<mapsto> [0, 1, 2], 7 \<mapsto> [3]]\<rparr> = []"
  using batch_calls_per_child [OF example_batch]
  by (simp add: batch_aggregate_calls_def upt_rec)

subsection \<open>The action time updater\<close>

lemma aggregate_no_nodes:
  assumes "histogram_updater agg = action_time_histogram_updater_t action_code"
    and "nodes_of (get_action_codes_to_nodes_map call_tree) action_code = []"
  shows "aggregate agg call_tree = Inr agg"
  using assms
  by (simp add: aggregate_def updater_call_def action_time_histogram_updater_t_def nodes_of_def
      split: option.splits)

lemma int64_to_int_in_range:
  assumes "- (2 ^ 31) \<le> sint d" and "sint d < 2 ^ 31"
  shows "sint (int64_to_int d) = sint d"
proof -
  have "sint (ucast d :: 32 word) = signed_take_bit 31 (uint d)"
    by (simp add: signed_ucast_eq)
  also have "\<dots> = signed_take_bit 31 (signed_take_bit 63 (uint d))"
    by simp
  also have "signed_take_bit 63 (uint d) = sint d"
    by (simp add: sint_uint)
  also have "signed_take_bit 31 (sint d) = sint d"
    using assms by (intro signed_take_bit_int_eq_self) simp_all
  finally show ?thesis by (simp add: int64_to_int_def)
qed

text \<open>
  Claim C8: a trace without node for the bound code leaves the histogram as it is and
  raises nothing (\<open>aggregate_no_nodes\<close>); every node with the code gives one update whose
  measurement is the node's stop time minus its start time. The difference is computed in
  64 bits and then passed to the \<^verbatim>\<open>int\<close> parameter of \<^verbatim>\<open>update\<close>, which keeps its
  low 32 bits: both are the same number only when the difference fits an \<^verbatim>\<open>int\<close>
  (\<open>int64_to_int_in_range\<close>). A node that lasts \<open>4294967301 = 2^32 + 5\<close> time units is
  counted as one that lasts 5: with ticks \<open>[10, 20]\<close> the first bucket is incremented,
  though both ticks are below the duration.
\<close>

theorem C8_narrowed_measurement:
  "int64_to_int (4294967301 - 0) = 5 \<and>
   length (filter (\<lambda>t. sint t \<le> 4294967301) [10, 20 :: cint]) = 2 \<and>
   aggregate (histogram_aggregator_t (action_time_histogram_updater_t 5) (histogram1D_t [10, 20]))
     \<lparr>get_node_start_time = (\<lambda>n. 0), get_node_stop_time = (\<lambda>n. 4294967301),
      get_action_codes_to_nodes_map = [5 \<mapsto> [0]]\<rparr> =
   Inr \<lparr>histogram = \<lparr>ticks = [10, 20, INT_MAX],
          buckets = [\<lparr>frequency = 1\<rparr>, \<lparr>frequency = 0\<rparr>, \<lparr>frequency = 0\<rparr>]\<rparr>,
        histogram_updater = action_time_histogram_updater_t 5\<rparr>"
  by (simp add: histogram1D_t_def histogram_t_def update1D_def update_def bucket_t_init_def
      bucket_update_def upper_bound_def upper_bound_loop.simps INT_MAX_def int64_to_int_def
      aggregate_def updater_call_def action_time_histogram_updater_t_def
      histogram_aggregator_t_def numeral_3_eq_3)

subsection \<open>Frequencies over a sequence of calls\<close>

lemma unat_bucket_update:
  assumes "unat (frequency b) + 1 < 2 ^ 64"
  shows "unat (frequency (bucket_update b)) = unat (frequency b) + 1"
  using assms unat_add_lem [of "frequency b" 1]
  by (simp add: bucket_update_def)

lemma grown_by_refl: "grown_by 0 h h"
  by (simp add: grown_by_def list_all2_conv_all_nth)

lemma grown_by_trans:
  assumes "grown_by j h h1" and "grown_by k h1 h2"
  shows "grown_by (j + k) h h2"
  unfolding grown_by_def list_all2_conv_all_nth
proof (intro conjI allI impI)
  show "ticks h2 = ticks h" using assms by (simp add: grown_by_def)
  show len: "length (buckets h) = length (buckets h2)"
    using assms by (simp add: grown_by_def list_all2_conv_all_nth)
  fix i assume i: "i < length (buckets h)"
  with assms(1) have a: "unat (frequency (buckets h ! i)) \<le> unat (frequency (buckets h1 ! i))"
    "unat (frequency (buckets h1 ! i)) \<le> unat (frequency (buckets h ! i)) + j"
    and i1: "i < length (buckets h1)"
    by (simp_all add: grown_by_def list_all2_conv_all_nth)
  from assms(2) i1 have b: "unat (frequency (buckets h1 ! i)) \<le> unat (frequency (buckets h2 ! i))"
    "unat (frequency (buckets h2 ! i)) \<le> unat (frequency (buckets h1 ! i)) + k"
    by (simp_all add: grown_by_def list_all2_conv_all_nth)
  from a b show "unat (frequency (buckets h ! i)) \<le> unat (frequency (buckets h2 ! i))"
    by linarith
  from a b show "unat (frequency (buckets h2 ! i)) \<le> unat (frequency (buckets h ! i)) + (j + k)"
    by linarith
qed

lemma headroom_after:
  assumes "headroom (j + k) h" and "grown_by j h h1"
  shows "headroom k h1"
  unfolding headroom_def list_all_length
proof (intro allI impI)
  fix i assume i: "i < length (buckets h1)"
  from assms(2) have len: "length (buckets h) = length (buckets h1)"
    and le: "unat (frequency (buckets h1 ! i)) \<le> unat (frequency (buckets h ! i)) + j"
    using i by (auto simp: grown_by_def list_all2_conv_all_nth)
  from assms(1) i len have "unat (frequency (buckets h ! i)) + (j + k) < 2 ^ 64"
    by (simp add: headroom_def list_all_length)
  with le show "unat (frequency (buckets h1 ! i)) + k < 2 ^ 64" by linarith
qed

lemma headroom_less:
  assumes "headroom k' h" and "k \<le> k'"
  shows "headroom k h"
  using assms unfolding headroom_def list_all_length
  by (metis add_le_cancel_left le_less_trans)

lemma update1D_grown:
  assumes "update1D h m = Inr h'" and "headroom 1 h"
  shows "grown_by 1 h h'"
proof -
  let ?p = "upper_bound (ticks h) m"
  from update1D_Inr [OF assms(1)] have p: "?p < length (buckets h)"
    and h': "h' = h\<lparr>buckets := (buckets h)[?p := bucket_update (buckets h ! ?p)]\<rparr>"
    by simp_all
  from assms(2) p have "unat (frequency (buckets h ! ?p)) + 1 < 2 ^ 64"
    by (simp add: headroom_def list_all_length)
  from unat_bucket_update [OF this] p show ?thesis
    unfolding grown_by_def h'
    by (auto simp: list_all2_conv_all_nth nth_list_update)
qed

lemma action_time_loop_grown:
  assumes "action_time_loop h call_tree ns = Inr h'" and "headroom (length ns) h"
  shows "grown_by (length ns) h h'"
  using assms
proof (induction ns arbitrary: h)
  case Nil
  then show ?case by (simp add: grown_by_refl)
next
  case (Cons n ns)
  let ?m = "int64_to_int (get_node_stop_time call_tree n - get_node_start_time call_tree n)"
  from Cons.prems(1) obtain h1 where u: "update1D h ?m = Inr h1"
    and rest: "action_time_loop h1 call_tree ns = Inr h'"
    by (auto simp: Let_def split: sum.splits)
  have "headroom 1 h" using Cons.prems(2) by (rule headroom_less) simp
  from update1D_grown [OF u this] have g1: "grown_by 1 h h1" .
  have "headroom (1 + length ns) h" using Cons.prems(2) by simp
  from headroom_after [OF this g1] have "headroom (length ns) h1" .
  from Cons.IH [OF rest this] have "grown_by (length ns) h1 h'" .
  from grown_by_trans [OF g1 this] show ?case by simp
qed

lemma updater_grown:
  assumes "action_time_histogram_updater_t action_code h call_tree m = Inr h'"
    and "headroom (length (nodes_of m action_code)) h"
  shows "grown_by (length (nodes_of m action_code)) h h'"
proof (cases "m action_code")
  case None
  with assms show ?thesis
    by (simp add: action_time_histogram_updater_t_def nodes_of_def grown_by_refl)
next
  case (Some ns)
  with assms action_time_loop_grown [of h call_tree ns h'] show ?thesis
    by (simp add: action_time_histogram_updater_t_def nodes_of_def)
qed

lemma run_call_grown:
  assumes "histogram_updater agg = action_time_histogram_updater_t action_code"
    and "run_call agg c = Inr agg'"
    and "headroom (visited action_code c) (histogram agg)"
  shows "grown_by (visited action_code c) (histogram agg) (histogram agg') \<and>
         histogram_updater agg' = histogram_updater agg"
proof (cases c)
  case (Aggregate call_tree)
  with assms(1,2) obtain h' where
    "action_time_histogram_updater_t action_code (histogram agg) call_tree
       (get_action_codes_to_nodes_map call_tree) = Inr h'"
    and "agg' = agg\<lparr>histogram := h'\<rparr>"
    by (auto simp: aggregate_def updater_call_def split: sum.splits)
  with updater_grown [of action_code "histogram agg" call_tree
      "get_action_codes_to_nodes_map call_tree" h'] assms(3) Aggregate
  show ?thesis by simp
next
  case (Aggregate_with_map call_tree m)
  with assms(1,2) obtain h' where
    "action_time_histogram_updater_t action_code (histogram agg) call_tree m = Inr h'"
    and "agg' = agg\<lparr>histogram := h'\<rparr>"
    by (auto simp: aggregate_with_map_def split: sum.splits)
  with updater_grown [of action_code "histogram agg" call_tree m h'] assms(3)
    Aggregate_with_map
  show ?thesis by simp
qed

lemma run_calls_grown:
  assumes "histogram_updater agg = action_time_histogram_updater_t action_code"
    and "run_calls agg cs = Inr agg'"
    and "headroom (sum_list (map (visited action_code) cs)) (histogram agg)"
  shows "grown_by (sum_list (map (visited action_code) cs)) (histogram agg) (histogram agg')"
  using assms
proof (induction cs arbitrary: agg)
  case Nil
  then show ?case by (simp add: grown_by_refl)
next
  case (Cons c cs)
  let ?k = "sum_list (map (visited action_code) cs)"
  from Cons.prems(2) obtain agg1 where c: "run_call agg c = Inr agg1"
    and rest: "run_calls agg1 cs = Inr agg'"
    by (auto split: sum.splits)
  have hr: "headroom (visited action_code c + ?k) (histogram agg)"
    using Cons.prems(3) by simp
  then have "headroom (visited action_code c) (histogram agg)"
    by (rule headroom_less) simp
  from run_call_grown [OF Cons.prems(1) c this]
  have g1: "grown_by (visited action_code c) (histogram agg) (histogram agg1)"
    and u1: "histogram_updater agg1 = action_time_histogram_updater_t action_code"
    using Cons.prems(1) by simp_all
  from headroom_after [OF hr g1] have "headroom ?k (histogram agg1)" .
  from Cons.IH [OF u1 rest this] have "grown_by ?k (histogram agg1) (histogram agg')" .
  from grown_by_trans [OF g1 this] show ?case by simp
qed

lemma run_call_keeps_updater:
  assumes "run_call agg c = Inr agg'"
  shows "histogram_updater agg' = histogram_updater agg"
  using assms
  by (cases c) (auto simp: aggregate_def aggregate_with_map_def split: sum.splits)

lemma run_calls_keeps_updater:
  assumes "run_calls agg cs = Inr agg'"
  shows "histogram_updater agg' = histogram_updater agg"
  using assms
proof (induction cs arbitrary: agg)
  case Nil
  then show ?case by simp
next
  case (Cons c cs)
  from Cons.prems obtain agg1 where c: "run_call agg c = Inr agg1"
    and rest: "run_calls agg1 cs = Inr agg'"
    by (auto split: sum.splits)
  from Cons.IH [OF rest] run_call_keeps_updater [OF c] show ?case by simp
qed

lemma headroom_fresh:
  assumes "k < 2 ^ 64"
  shows "headroom k (histogram1D_t T)"
  using assms
  by (simp add: headroom_def histogram1D_t_def histogram_t_def bucket_t_init_def list_all_iff)

lemma grown_by_frequencies:
  assumes "grown_by k h h'"
  shows "list_all2 (\<lambda>f f'. f \<le> f') (frequencies h) (frequencies h')"
  using assms
  by (simp add: grown_by_def frequencies_def bucket_get_def list_all2_conv_all_nth
      word_le_nat_alt)

text \<open>
  Claim C7: over any sequence of \<^verbatim>\<open>aggregate\<close> calls on a histogram aggregator, no
  bucket frequency ever decreases. For an aggregator constructed with the action time
  updater and any sequence of calls, of either form: the frequencies reached after the
  calls \<open>cs\<close> are, position by position, at most the frequencies reached after the further
  calls \<open>cs'\<close>. The frequency is a \<^verbatim>\<open>size_t\<close> that \<^verbatim>\<open>update\<close> increments by one; the
  statement is about the runs in which it is the count of updates, those that visit fewer
  than \<open>2^64\<close> nodes in all.
\<close>

theorem C7_frequencies_never_decrease:
  assumes "run_calls (histogram_aggregator_t (action_time_histogram_updater_t action_code)
             (histogram1D_t T)) cs = Inr agg"
    and "run_calls agg cs' = Inr agg'"
    and "sum_list (map (visited action_code) (cs @ cs')) < 2 ^ 64"
  shows "list_all2 (\<lambda>f f'. f \<le> f') (frequencies (histogram agg)) (frequencies (histogram agg'))"
proof -
  let ?agg0 = "histogram_aggregator_t (action_time_histogram_updater_t action_code)
                 (histogram1D_t T)"
  let ?k = "sum_list (map (visited action_code) cs)"
  let ?k' = "sum_list (map (visited action_code) cs')"
  have u0: "histogram_updater ?agg0 = action_time_histogram_updater_t action_code"
    by (simp add: histogram_aggregator_t_def)
  have h0: "histogram ?agg0 = histogram1D_t T"
    by (simp add: histogram_aggregator_t_def)
  have room: "headroom (?k + ?k') (histogram ?agg0)"
    using assms(3) unfolding h0 by (intro headroom_fresh) simp
  then have "headroom ?k (histogram ?agg0)" by (rule headroom_less) simp
  from run_calls_grown [OF u0 assms(1) this]
  have g: "grown_by ?k (histogram ?agg0) (histogram agg)" .
  from headroom_after [OF room g] have room': "headroom ?k' (histogram agg)" .
  have u: "histogram_updater agg = action_time_histogram_updater_t action_code"
    using run_calls_keeps_updater [OF assms(1)] u0 by simp
  from run_calls_grown [OF u assms(2) room']
  have "grown_by ?k' (histogram agg) (histogram agg')" .
  then show ?thesis by (rule grown_by_frequencies)
qed

theorem C7_frequencies_never_decrease_witness:
  "run_calls (histogram_aggregator_t (action_time_histogram_updater_t 5) (histogram1D_t [10, 20]))
     [Aggregate \<lparr>get_node_start_time = (\<lambda>n. 0), get_node_stop_time = (\<lambda>n. [5, 15, 25, 50] ! n),
                 get_action_codes_to_nodes_map = [5 \<mapsto> [0, 1, 2], 7 \<mapsto> [3]]\<rparr>] =
     Inr \<lparr>histogram = \<lparr>ticks = [10, 20, INT_MAX],
            buckets = [\<lparr>frequency = 1\<rparr>, \<lparr>frequency = 1\<rparr>, \<lparr>frequency = 1\<rparr>]\<rparr>,
          histogram_updater = action_time_histogram_updater_t 5\<rparr> \<and>
   run_calls
     \<lparr>histogram = \<lparr>ticks = [10, 20, INT_MAX],
            buckets = [\<lparr>frequency = 1\<rparr>, \<lparr>frequency = 1\<rparr>, \<lparr>frequency = 1\<rparr>]\<rparr>,
      histogram_updater = action_time_histogram_updater_t 5\<rparr>
     [Aggregate_with_map
        \<lparr>get_node_start_time = (\<lambda>n. 0), get_node_stop_time = (\<lambda>n. [5, 15, 25, 50] ! n),
         get_action_codes_to_nodes_map = [5 \<mapsto> [0, 1, 2], 7 \<mapsto> [3]]\<rparr>
        [5 \<mapsto> [2, 3]]] =
     Inr \<lparr>histogram = \<lparr>ticks = [10, 20, INT_MAX],
            buckets = [\<lparr>frequency = 1\<rparr>, \<lparr>frequency = 1\<rparr>, \<lparr>frequency = 3\<rparr>]\<rparr>,
          histogram_updater = action_time_histogram_updater_t 5\<rparr> \<and>
   list_all2 (\<lambda>f f'. f \<le> f') [1, 1, 1 :: size_t] [1, 1, 3]"
proof -
  let ?tr = "\<lparr>get_node_start_time = (\<lambda>n. 0), get_node_stop_time = (\<lambda>n. [5, 15, 25, 50] ! n),
              get_action_codes_to_nodes_map = [5 \<mapsto> [0, 1, 2], 7 \<mapsto> [3]]\<rparr>"
  let ?agg = "\<lparr>histogram = \<lparr>ticks = [10, 20, INT_MAX],
            buckets = [\<lparr>frequency = 1\<rparr>, \<lparr>frequency = 1\<rparr>, \<lparr>frequency = 1\<rparr>]\<rparr>,
          histogram_updater = action_time_histogram_updater_t 5\<rparr>"
  let ?agg' = "\<lparr>histogram = \<lparr>ticks = [10, 20, INT_MAX],
            buckets = [\<lparr>frequency = 1\<rparr>, \<lparr>frequency = 1\<rparr>, \<lparr>frequency = 3\<rparr>]\<rparr>,
          histogram_updater = action_time_histogram_updater_t 5\<rparr>"
  have r: "run_calls (histogram_aggregator_t (action_time_histogram_updater_t 5)
             (histogram1D_t [10, 20])) [Aggregate ?tr] = Inr ?agg"
    by (simp add: histogram1D_t_def histogram_t_def update1D_def update_def bucket_t_init_def
      bucket_update_def upper_bound_def upper_bound_loop.simps INT_MAX_def int64_to_int_def
      aggregate_def updater_call_def action_time_histogram_updater_t_def
      histogram_aggregator_t_def numeral_3_eq_3)
  have r': "run_calls ?agg [Aggregate_with_map ?tr [5 \<mapsto> [2, 3]]] = Inr ?agg'"
    by (simp add: update1D_def update_def
      bucket_update_def upper_bound_def upper_bound_loop.simps INT_MAX_def int64_to_int_def
      aggregate_with_map_def action_time_histogram_updater_t_def numeral_3_eq_3)
  have k: "sum_list (map (visited 5) ([Aggregate ?tr] @ [Aggregate_with_map ?tr [5 \<mapsto> [2, 3]]]))
             < 2 ^ 64"
    by (simp add: nodes_of_def)
  from C7_frequencies_never_decrease [OF r r' k]
  have "list_all2 (\<lambda>f f'. f \<le> f') [1, 1, 1 :: size_t] [1, 1, 3]"
    by (simp add: frequencies_def bucket_get_def)
  with r r' show ?thesis by (intro conjI)
qed

end
